theory Spec2Isabelle
  imports Complex_Main
begin

section \<open>Text utilities (lib/utils.ts)\<close>

text \<open>
  A JavaScript string is a sequence of UTF-16 code units; \<open>length\<close> counts them and
  \<open>slice\<close> cuts between them. A \<^typ>\<open>string\<close> stands for that sequence here, one
  element per code unit. The \<open>number\<close> parameter \<open>maxLength\<close> is taken over the
  integers, negative ones included.
\<close>

definition js_slice :: "string \<Rightarrow> int \<Rightarrow> int \<Rightarrow> string" where
  \<comment> \<open>\<open>String.prototype.slice(start, end)\<close>: a negative index counts from the end,
      both indices are clamped to \<open>[0, length]\<close>.\<close>
  "js_slice s start stop =
     (let len = int (length s);
          from = (if start < 0 then max (len + start) 0 else min start len);
          to = (if stop < 0 then max (len + stop) 0 else min stop len)
      in if to \<le> from then [] else take (nat (to - from)) (drop (nat from) s))"

definition truncateText :: "string \<Rightarrow> int option \<Rightarrow> string" where
  \<comment> \<open>\<open>truncateText(text, maxLength = 100)\<close>: \<open>None\<close> is the omitted argument.\<close>
  "truncateText text maxLength_opt =
     (let maxLength = (case maxLength_opt of None \<Rightarrow> 100 | Some m \<Rightarrow> m)
      in if int (length text) \<le> maxLength then text
         else js_slice text 0 maxLength @ ''...'')"

section \<open>Numbers\<close>

text \<open>
  A JavaScript \<open>number\<close> is an IEEE 754 double. A finite double is taken as the real
  number it denotes; the result of an addition or a division is the exact result
  rounded to the nearest double, a tie going to the even significand, and a result
  of magnitude \<open>2^1024\<close> or more is an infinity. The sign of zero is not kept. The values
  that enter the computations below are finite, so the value \<open>NaN\<close> cannot arise from
  them.
\<close>

fun bit_length :: "nat \<Rightarrow> nat" where
  \<comment> \<open>The number of binary digits of \<open>n\<close>; 0 for 0.\<close>
  "bit_length n = (if n = 0 then 0 else Suc (bit_length (n div 2)))"

declare bit_length.simps [simp del]

definition pow2 :: "int \<Rightarrow> real" where
  "pow2 e = (if 0 \<le> e then 2 ^ nat e else 1 / 2 ^ nat (- e))"

definition binade :: "real \<Rightarrow> int" where
  \<comment> \<open>For \<open>x > 0\<close>, the exponent \<open>e\<close> with \<open>2^e \<le> x < 2^(e+1)\<close>.\<close>
  "binade x =
     (if 1 \<le> x then int (bit_length (nat \<lfloor>x\<rfloor>)) - 1
      else - int (bit_length (nat (\<lceil>1 / x\<rceil> - 1))))"

definition round_half_even :: "real \<Rightarrow> int" where
  "round_half_even x =
     (let f = \<lfloor>x\<rfloor>; r = x - of_int f
      in if r < 1 / 2 then f
         else if 1 / 2 < r then f + 1
         else if even f then f else f + 1)"

datatype double = Fin real | PosInfinity | NegInfinity

definition fl :: "real \<Rightarrow> double" where
  \<comment> \<open>Rounding to double: 53 significant bits in the binade of \<open>x\<close>, and multiples of
      \<open>2^-1074\<close> below \<open>2^-1022\<close>.\<close>
  "fl x =
     (if x = 0 then Fin 0
      else
        let q = max (binade \<bar>x\<bar> - 52) (- 1074);
            y = of_int (round_half_even (x / pow2 q)) * pow2 q
        in if pow2 1024 \<le> y then PosInfinity
           else if y \<le> - pow2 1024 then NegInfinity
           else Fin y)"

definition is_double :: "real \<Rightarrow> bool" where
  "is_double x = (fl x = Fin x)"

fun js_add :: "double \<Rightarrow> real \<Rightarrow> double" where
  \<comment> \<open>\<open>a + b\<close> for a finite \<open>b\<close>\<close>
  "js_add (Fin a) b = fl (a + b)"
| "js_add PosInfinity b = PosInfinity"
| "js_add NegInfinity b = NegInfinity"

fun Math_round :: "double \<Rightarrow> double" where
  \<comment> \<open>\<open>Math.round\<close>: the nearest integer, a tie going up.\<close>
  "Math_round (Fin x) = Fin (of_int \<lfloor>x + 1 / 2\<rfloor>)"
| "Math_round PosInfinity = PosInfinity"
| "Math_round NegInfinity = NegInfinity"

fun clamp_0_100 :: "double \<Rightarrow> real" where
  \<comment> \<open>\<open>Math.max(0, Math.min(100, x))\<close>\<close>
  "clamp_0_100 (Fin x) = max 0 (min 100 x)"
| "clamp_0_100 PosInfinity = 100"
| "clamp_0_100 NegInfinity = 0"

section \<open>Bill page (app/bill/page.tsx) and the vote request (lib/api.ts)\<close>

text \<open>
  \<open>approval_rate\<close> is a finite number: the clauses come from a JSON response.
\<close>

record BillClause =
  id_c :: int
  section_number :: int
  title :: string
  content :: string
  rationale :: string
  cluster_id :: int
  submission_count :: int
  approval_rate :: real
  created_at :: string
  updated_at :: string

datatype voteType = approve | reject

datatype variant = Default | Success | Destructive

record ToastProps =
  toast_title :: string
  toast_description :: "string option"
  toast_variant :: "variant option"

subsection \<open>The request of \<open>submitVote\<close>\<close>

record vote_body =
  clause_id :: int
  vote :: string
  region :: "string option"

record vote_request =
  content_type :: string
  authorization :: "string option"
  body :: vote_body

fun vote_string :: "voteType \<Rightarrow> string" where
  "vote_string approve = ''approve''"
| "vote_string reject = ''reject''"

definition request_interceptor :: "string option \<Rightarrow> string option" where
  \<comment> \<open>The request interceptor of the axios instance: \<open>token\<close> is
      \<open>localStorage.getItem('auth_token')\<close>, and \<open>if (token)\<close> holds of a non-empty
      string. The result is the \<open>Authorization\<close> header, if one is set.\<close>
  "request_interceptor token =
     (case token of
        None \<Rightarrow> None
      | Some t \<Rightarrow> if t \<noteq> [] then Some (''Bearer '' @ t) else None)"

definition submitVote :: "string option \<Rightarrow> int \<Rightarrow> string \<Rightarrow> string option \<Rightarrow> vote_request" where
  \<comment> \<open>The request \<open>submitVote(clauseId, vote, region)\<close> sends to \<open>/api/vote\<close>, given the
      stored \<open>auth_token\<close>: the headers of the axios instance and of its interceptor,
      and the JSON body.\<close>
  "submitVote token clauseId v r =
     \<lparr>content_type = ''application/json'',
      authorization = request_interceptor token,
      body = \<lparr>clause_id = clauseId, vote = v, region = r\<rparr>\<rparr>"

subsection \<open>\<open>handleVote\<close>\<close>

text \<open>
  \<open>handleVote\<close> is an async function created anew by each render; it sees the
  \<open>clauses\<close> and \<open>votedClauses\<close> of that render. A call runs up to
  \<open>await submitVote(...)\<close>, and the rest runs when the request is answered, on the
  values the call started with: \<open>setVotedClauses\<close> and \<open>setClauses\<close> then overwrite the
  state of the page. Other calls may start and finish in between. A click is handled
  by the handler of the latest render, so a call starts from the current state. A call waiting for
  its answer is a \<open>pending_vote\<close>; \<open>pv_request\<close> numbers the calls that sent a request,
  to tell which one an answer belongs to.
\<close>

record pending_vote =
  pv_request :: nat
  pv_clauseId :: int
  pv_voteType :: voteType
  pv_clauses :: "BillClause list"
  pv_votedClauses :: "int set"

record page_state =
  clauses :: "BillClause list"
  votedClauses :: "int set"
  pending :: "pending_vote list"
  requests :: nat
  posted :: "vote_request list"
  shown :: "ToastProps list"
  auth_token :: "string option"

text \<open>
  \<open>requests\<close> counts the requests sent so far, \<open>posted\<close> lists them in order, and
  \<open>shown\<close> lists the notifications raised through \<open>toast\<close>. \<open>auth_token\<close> is what
  \<open>localStorage\<close> holds under that key. The other state of the page (\<open>fullBill\<close>,
  \<open>loading\<close>, \<open>expandedClause\<close>, \<open>viewMode\<close>) does not enter \<open>handleVote\<close>.
\<close>

definition adjustment :: "voteType \<Rightarrow> real" where
  "adjustment voteType = (if voteType = approve then 0.5 else - 0.5)"

definition update_clause :: "int \<Rightarrow> voteType \<Rightarrow> BillClause \<Rightarrow> BillClause" where
  \<comment> \<open>The callback of \<open>clauses.map\<close> in \<open>handleVote\<close>.\<close>
  "update_clause clauseId voteType clause =
     (if id_c clause = clauseId
      then clause\<lparr>approval_rate :=
             clamp_0_100 (js_add (Fin (approval_rate clause)) (adjustment voteType))\<rparr>
      else clause)"

definition already_voted_toast :: ToastProps where
  "already_voted_toast =
     \<lparr>toast_title = ''Already voted'',
      toast_description = Some ''You have already voted on this clause'',
      toast_variant = Some Default\<rparr>"

definition vote_recorded_toast :: ToastProps where
  "vote_recorded_toast =
     \<lparr>toast_title = ''Vote recorded'',
      toast_description = Some ''Thank you for your feedback!'',
      toast_variant = Some Success\<rparr>"

definition vote_failed_toast :: ToastProps where
  "vote_failed_toast =
     \<lparr>toast_title = ''Vote failed'',
      toast_description = Some ''Please try again later'',
      toast_variant = Some Destructive\<rparr>"

definition handleVote :: "int \<Rightarrow> voteType \<Rightarrow> page_state \<Rightarrow> page_state" where
  \<comment> \<open>A call of \<open>handleVote\<close> from the current render, up to the \<open>await\<close>: the guard,
      then the request is sent and the call waits.\<close>
  "handleVote clauseId voteType s =
     (if clauseId \<in> votedClauses s
      then s\<lparr>shown := shown s @ [already_voted_toast]\<rparr>
      else s\<lparr>posted := posted s @
                 [submitVote (auth_token s) clauseId (vote_string voteType) None],
               requests := requests s + 1,
               pending := pending s @
                 [\<lparr>pv_request = requests s, pv_clauseId = clauseId,
                   pv_voteType = voteType, pv_clauses = clauses s,
                   pv_votedClauses = votedClauses s\<rparr>]\<rparr>)"

definition find_pending :: "nat \<Rightarrow> page_state \<Rightarrow> pending_vote option" where
  "find_pending n s = find (\<lambda>p. pv_request p = n) (pending s)"

definition drop_pending :: "nat \<Rightarrow> page_state \<Rightarrow> pending_vote list" where
  "drop_pending n s = filter (\<lambda>p. pv_request p \<noteq> n) (pending s)"

definition handleVote_resolved :: "nat \<Rightarrow> page_state \<Rightarrow> page_state" where
  \<comment> \<open>The request numbered \<open>n\<close> is answered: the call goes on after the \<open>await\<close>,
      with the \<open>votedClauses\<close> and \<open>clauses\<close> it started with.\<close>
  "handleVote_resolved n s =
     (case find_pending n s of
        None \<Rightarrow> s
      | Some p \<Rightarrow>
          s\<lparr>votedClauses := insert (pv_clauseId p) (pv_votedClauses p),
            clauses := map (update_clause (pv_clauseId p) (pv_voteType p)) (pv_clauses p),
            shown := shown s @ [vote_recorded_toast],
            pending := drop_pending n s\<rparr>)"

definition handleVote_rejected :: "nat \<Rightarrow> page_state \<Rightarrow> page_state" where
  \<comment> \<open>The request numbered \<open>n\<close> fails: the \<open>catch\<close> block.\<close>
  "handleVote_rejected n s =
     (case find_pending n s of
        None \<Rightarrow> s
      | Some p \<Rightarrow> s\<lparr>shown := shown s @ [vote_failed_toast], pending := drop_pending n s\<rparr>)"

datatype page_event = Vote int voteType | Resolved nat | Rejected nat

fun page_step :: "page_event \<Rightarrow> page_state \<Rightarrow> page_state" where
  "page_step (Vote clauseId voteType) s = handleVote clauseId voteType s"
| "page_step (Resolved n) s = handleVote_resolved n s"
| "page_step (Rejected n) s = handleVote_rejected n s"

fun run_page :: "page_event list \<Rightarrow> page_state \<Rightarrow> page_state" where
  \<comment> \<open>Clicks and answers in the order in which they happen.\<close>
  "run_page [] s = s"
| "run_page (e # es) s = run_page es (page_step e s)"

definition loaded :: "string option \<Rightarrow> BillClause list \<Rightarrow> page_state" where
  \<comment> \<open>The page once mounted and \<open>loadBillData\<close> has stored the clauses it fetched:
      \<open>votedClauses\<close> is the empty set of \<open>useState\<close>, nothing has been sent.\<close>
  "loaded token cs =
     \<lparr>clauses = cs, votedClauses = {}, pending = [], requests = 0, posted = [],
      shown = [], auth_token = token\<rparr>"


definition in_range :: "real \<Rightarrow> bool" where
  "in_range r = (0 \<le> r \<and> r \<le> 100)"







definition rates_ok :: "BillClause list \<Rightarrow> bool" where
  "rates_ok cs = list_all (\<lambda>c. in_range (approval_rate c)) cs"

definition page_ok :: "page_state \<Rightarrow> bool" where
  \<comment> \<open>The rates on the page, and those the waiting calls started with, are within
      \<open>[0, 100]\<close>.\<close>
  "page_ok s = (rates_ok (clauses s) \<and> list_all (\<lambda>p. rates_ok (pv_clauses p)) (pending s))"


subsection \<open>The contract of the specification, for comparison\<close>






subsection \<open>Average approval (the statistics card of the bill page)\<close>

definition js_div_length :: "double \<Rightarrow> nat \<Rightarrow> double option" where
  \<comment> \<open>\<open>a / n\<close> for an array length \<open>n\<close>, which is below \<open>2^32\<close> and so a double as it
      stands. \<open>None\<close> marks the division by zero.\<close>
  "js_div_length a n =
     (if n = 0 then None
      else Some (case a of Fin x \<Rightarrow> fl (x / real n)
                 | PosInfinity \<Rightarrow> PosInfinity | NegInfinity \<Rightarrow> NegInfinity))"

definition double_mean :: "real list \<Rightarrow> double" where
  \<comment> \<open>The running sum of the numbers in double arithmetic, from 0 and in list order,
      divided in double arithmetic by their count.\<close>
  "double_mean rs =
     (case foldl js_add (Fin 0) rs of
        Fin x \<Rightarrow> fl (x / real (length rs))
      | PosInfinity \<Rightarrow> PosInfinity
      | NegInfinity \<Rightarrow> NegInfinity)"

definition average_approval :: "BillClause list \<Rightarrow> double option" where
  \<comment> \<open>\<open>clauses.length > 0 ? Math.round(clauses.reduce((sum, c) => sum + c.approval_rate, 0)
      / clauses.length) : 0\<close>\<close>
  "average_approval cs =
     (if length cs > 0
      then map_option Math_round
             (js_div_length (foldl (\<lambda>sum c. js_add sum (approval_rate c)) (Fin 0) cs)
                (length cs))
      else Some (Fin 0))"

section \<open>Submission form (app/submit/page.tsx)\<close>

definition GHANA_REGIONS :: "string list" where
  "GHANA_REGIONS =
     [''Greater Accra'', ''Ashanti'', ''Western'', ''Eastern'', ''Central'',
      ''Volta'', ''Oti'', ''Northern'', ''North East'', ''Savannah'',
      ''Upper East'', ''Upper West'', ''Bono'', ''Bono East'', ''Ahafo'', ''Western North'']"

subsection \<open>\<open>parseInt\<close> with the radix omitted\<close>

datatype number = NaN | Finite int

definition is_white_space :: "char \<Rightarrow> bool" where
  \<comment> \<open>The white space and line terminators among the code units below 256.\<close>
  "is_white_space c =
     (c \<in> set [CHR 0x09, CHR 0x0A, CHR 0x0B, CHR 0x0C, CHR 0x0D, CHR 0x20, CHR 0xA0])"

definition digit_value :: "char \<Rightarrow> nat option" where
  "digit_value c =
     (let n = (of_char c :: nat)
      in if 48 \<le> n \<and> n \<le> 57 then Some (n - 48)
         else if 97 \<le> n \<and> n \<le> 122 then Some (n - 87)
         else if 65 \<le> n \<and> n \<le> 90 then Some (n - 55)
         else None)"

fun digits_prefix :: "nat \<Rightarrow> string \<Rightarrow> nat list" where
  \<comment> \<open>The longest prefix of digits of the radix, as digit values.\<close>
  "digits_prefix R [] = []"
| "digits_prefix R (c # cs) =
     (case digit_value c of
        None \<Rightarrow> []
      | Some d \<Rightarrow> if d < R then d # digits_prefix R cs else [])"

definition digits_number :: "nat \<Rightarrow> nat list \<Rightarrow> nat" where
  "digits_number R ds = foldl (\<lambda>acc d. acc * R + d) 0 ds"

definition parseInt :: "string \<Rightarrow> number" where
  \<comment> \<open>Leading white space is skipped, a sign is read, a \<open>0x\<close> prefix selects radix 16,
      and the longest prefix of digits gives the value; with no digit the result is
      \<open>NaN\<close>. What follows the digits is ignored.\<close>
  "parseInt input =
     (let s = dropWhile is_white_space input;
          sign = (case s of c # _ \<Rightarrow> if c = CHR ''-'' then - 1 else 1 | [] \<Rightarrow> (1::int));
          s1 = (case s of c # r \<Rightarrow> if c = CHR ''-'' \<or> c = CHR ''+'' then r else s | [] \<Rightarrow> s);
          hex = (take 2 s1 = ''0x'' \<or> take 2 s1 = ''0X'');
          R = (if hex then 16 else 10);
          s2 = (if hex then drop 2 s1 else s1);
          ds = digits_prefix R s2
      in if ds = [] then NaN else Finite (sign * int (digits_number R ds)))"

subsection \<open>The validation schema\<close>

text \<open>
  The values handed to the resolver: the textarea and the select give strings, the
  number input and the text input give strings or nothing, the checkbox a boolean.
\<close>

record SubmissionInput =
  in_content :: string
  in_region :: string
  in_age :: "string option"
  in_occupation :: "string option"
  in_agree_terms :: bool

record SubmissionForm =
  f_content :: string
  f_region :: string
  f_age :: "number option"
  f_occupation :: "string option"
  f_agree_terms :: bool

datatype issue_code = too_small | too_big | custom

record ZodIssue =
  issue_path :: string
  issue_kind :: issue_code
  issue_message :: string

definition content_min_issue :: ZodIssue where
  "content_min_issue =
     \<lparr>issue_path = ''content'', issue_kind = too_small,
      issue_message = ''Your submission must be at least 10 characters''\<rparr>"

definition content_max_issue :: ZodIssue where
  "content_max_issue =
     \<lparr>issue_path = ''content'', issue_kind = too_big,
      issue_message = ''Your submission must be less than 5000 characters''\<rparr>"

definition region_issue :: ZodIssue where
  "region_issue =
     \<lparr>issue_path = ''region'', issue_kind = too_small,
      issue_message = ''Please select your region''\<rparr>"

definition agree_terms_issue :: ZodIssue where
  "agree_terms_issue =
     \<lparr>issue_path = ''agree_terms'', issue_kind = custom,
      issue_message = ''You must agree to the terms''\<rparr>"

definition check_content :: "string \<Rightarrow> ZodIssue list" where
  \<comment> \<open>\<open>z.string().min(10, ...).max(5000, ...)\<close>: both checks run, each adds its issue.\<close>
  "check_content c =
     (if length c < 10 then [content_min_issue] else []) @
     (if length c > 5000 then [content_max_issue] else [])"

definition check_region :: "string \<Rightarrow> ZodIssue list" where
  \<comment> \<open>\<open>z.string().min(1, ...)\<close>\<close>
  "check_region r = (if length r < 1 then [region_issue] else [])"

definition transform_age :: "string option \<Rightarrow> number option" where
  \<comment> \<open>\<open>z.string().optional().transform(val => val ? parseInt(val) : undefined)\<close>: the
      empty string is falsy.\<close>
  "transform_age val =
     (case val of None \<Rightarrow> None | Some v \<Rightarrow> if v \<noteq> [] then Some (parseInt v) else None)"

definition check_agree_terms :: "bool \<Rightarrow> ZodIssue list" where
  \<comment> \<open>\<open>z.boolean().refine(val => val === true, ...)\<close>\<close>
  "check_agree_terms b = (if b then [] else [agree_terms_issue])"

definition submissionSchema :: "SubmissionInput \<Rightarrow> ZodIssue list + SubmissionForm" where
  "submissionSchema inp =
     (let issues = check_content (in_content inp) @ check_region (in_region inp) @
                   check_agree_terms (in_agree_terms inp)
      in if issues = []
         then Inr \<lparr>f_content = in_content inp, f_region = in_region inp,
                   f_age = transform_age (in_age inp),
                   f_occupation = in_occupation inp,
                   f_agree_terms = in_agree_terms inp\<rparr>
         else Inl issues)"

record SubmissionPayload =
  p_content :: string
  p_region :: string
  p_age :: "number option"
  p_occupation :: "string option"
  p_language :: string

definition onSubmit :: "SubmissionForm \<Rightarrow> SubmissionPayload" where
  \<comment> \<open>The argument of \<open>submitSubmission\<close> in \<open>onSubmit\<close>.\<close>
  "onSubmit d =
     \<lparr>p_content = f_content d, p_region = f_region d, p_age = f_age d,
      p_occupation = f_occupation d, p_language = ''en''\<rparr>"

definition handleSubmit :: "SubmissionInput \<Rightarrow> ZodIssue list + SubmissionPayload" where
  \<comment> \<open>\<open>handleSubmit(onSubmit)\<close>: the resolver first, \<open>onSubmit\<close> only on valid data.\<close>
  "handleSubmit inp =
     (case submissionSchema inp of Inl issues \<Rightarrow> Inl issues | Inr d \<Rightarrow> Inr (onSubmit d))"

definition age_input_min :: int where
  \<comment> \<open>\<open>min="18"\<close> on the age input\<close>
  "age_input_min = 18"

definition age_input_max :: int where
  \<comment> \<open>\<open>max="120"\<close> on the age input\<close>
  "age_input_max = 120"

definition plausible_age :: "number \<Rightarrow> bool" where
  \<comment> \<open>An integer within the bounds the age input declares.\<close>
  "plausible_age a =
     (case a of NaN \<Rightarrow> False | Finite n \<Rightarrow> age_input_min \<le> n \<and> n \<le> age_input_max)"

definition errors_at :: "string \<Rightarrow> ZodIssue list + 'a \<Rightarrow> ZodIssue option" where
  \<comment> \<open>\<open>errors.content\<close>, \<open>errors.region\<close>, ... of the form state: the first issue
      reported at the path, if any.\<close>
  "errors_at path res =
     (case res of Inl issues \<Rightarrow> find (\<lambda>i. issue_path i = path) issues | Inr _ \<Rightarrow> None)"

definition valid_input :: "string option \<Rightarrow> SubmissionInput" where
  \<comment> \<open>A form filled in validly, with the given content of the age field.\<close>
  "valid_input age =
     \<lparr>in_content = ''Officials must declare all assets.'', in_region = ''Volta'',
      in_age = age, in_occupation = Some ''Teacher'', in_agree_terms = True\<rparr>"

section \<open>Notification queue (components/ui/toaster.tsx)\<close>

text \<open>
  The module keeps a counter \<open>toastId\<close> and an array \<open>toasts\<close>. A toast's id is
  \<open>String(toastId++)\<close>; the decimal rendering is one-to-one, so the id is kept as the
  counter value. Time is in milliseconds. A pending timer is the pair of the instant
  at which \<open>setTimeout\<close> fires it and the id its callback captured; a timer fires as
  soon as the clock reaches that instant. The set of listeners only triggers
  re-rendering and is left out.
\<close>

record Toast =
  t_id :: nat
  t_title :: string
  t_description :: "string option"
  t_variant :: "variant option"

record toast_state =
  toastId :: nat
  toasts :: "Toast list"
  timers :: "(nat \<times> nat) list"
  now :: nat

definition retention_delay :: nat where
  "retention_delay = 5000"

fun findIndex :: "('a \<Rightarrow> bool) \<Rightarrow> 'a list \<Rightarrow> nat option" where
  \<comment> \<open>\<open>None\<close> is the result \<open>-1\<close>.\<close>
  "findIndex P [] = None"
| "findIndex P (x # xs) = (if P x then Some 0 else map_option Suc (findIndex P xs))"

definition splice1 :: "nat \<Rightarrow> 'a list \<Rightarrow> 'a list" where
  \<comment> \<open>\<open>splice(index, 1)\<close>\<close>
  "splice1 i xs = take i xs @ drop (Suc i) xs"

definition remove_toast :: "nat \<Rightarrow> Toast list \<Rightarrow> Toast list" where
  \<comment> \<open>The body shared by the timer callback and \<open>dismiss\<close>.\<close>
  "remove_toast i ts =
     (case findIndex (\<lambda>t. t_id t = i) ts of None \<Rightarrow> ts | Some index \<Rightarrow> splice1 index ts)"

definition toast :: "ToastProps \<Rightarrow> toast_state \<Rightarrow> toast_state" where
  "toast props s =
     s\<lparr>toastId := toastId s + 1,
       toasts := toasts s @
         [\<lparr>t_id = toastId s, t_title = toast_title props,
           t_description = toast_description props, t_variant = toast_variant props\<rparr>],
       timers := timers s @ [(now s + retention_delay, toastId s)]\<rparr>"

definition dismiss :: "nat \<Rightarrow> toast_state \<Rightarrow> toast_state" where
  "dismiss i s = s\<lparr>toasts := remove_toast i (toasts s)\<rparr>"

definition advance :: "nat \<Rightarrow> toast_state \<Rightarrow> toast_state" where
  \<comment> \<open>The clock moves on by \<open>dt\<close>; the timers that are due fire in the order in which
      they were set, the others stay pending.\<close>
  "advance dt s =
     (let t = now s + dt;
          due = filter (\<lambda>(d, i). d \<le> t) (timers s)
      in s\<lparr>now := t,
           toasts := foldl (\<lambda>ts (d, i). remove_toast i ts) (toasts s) due,
           timers := filter (\<lambda>(d, i). \<not> d \<le> t) (timers s)\<rparr>)"

datatype toast_event = Notify ToastProps | Dismiss nat | Advance nat

fun toast_step :: "toast_event \<Rightarrow> toast_state \<Rightarrow> toast_state" where
  "toast_step (Notify props) s = toast props s"
| "toast_step (Dismiss i) s = dismiss i s"
| "toast_step (Advance dt) s = advance dt s"

definition run_toasts :: "toast_event list \<Rightarrow> toast_state \<Rightarrow> toast_state" where
  "run_toasts es s = foldl (\<lambda>s e. toast_step e s) s es"

definition toast_init :: "nat \<Rightarrow> toast_state" where
  \<comment> \<open>The module as loaded at instant \<open>t0\<close>: \<open>toastId = 0\<close>, \<open>toasts = []\<close>.\<close>
  "toast_init t0 = \<lparr>toastId = 0, toasts = [], timers = [], now = t0\<rparr>"

definition queued :: "nat \<Rightarrow> toast_state \<Rightarrow> bool" where
  "queued i s = (i \<in> set (map t_id (toasts s)))"

definition toast_inv :: "toast_state \<Rightarrow> bool" where
  \<comment> \<open>What holds of the module between events: no pending timer is due and each
      carries an id already given out, every queued toast has a pending timer, and no
      two queued toasts share an id.\<close>
  "toast_inv s =
     ((\<forall>e \<in> set (timers s). now s < fst e \<and> snd e < toastId s) \<and>
      (\<forall>i \<in> set (map t_id (toasts s)). i \<in> snd ` set (timers s)) \<and>
      distinct (map t_id (toasts s)))"

definition timer_at :: "nat \<Rightarrow> nat \<Rightarrow> toast_state \<Rightarrow> bool" where
  \<comment> \<open>The id \<open>k\<close> has been given out, and a pending timer for it fires at \<open>D\<close>.\<close>
  "timer_at k D s = (k < toastId s \<and> (\<forall>e \<in> set (timers s). snd e = k \<longrightarrow> fst e = D))"

section \<open>Statistics\<close>

record Submission =
  sub_id :: nat
  sub_text :: string
  sub_region :: string

record Stats =
  total_submissions :: nat
  regions_represented :: nat
  clusters_formed :: nat
  clauses_drafted :: nat
  submissions_by_region :: "(string \<times> nat) list"

definition region_count :: "Submission list \<Rightarrow> string \<Rightarrow> nat" where
  "region_count subs r = length (filter (\<lambda>s. sub_region s = r) subs)"

definition stats_aggregator :: "Submission list \<Rightarrow> nat \<Rightarrow> nat \<Rightarrow> Stats" where
  \<comment> \<open>Modelled from the spec: the Stats Aggregator behind \<open>/api/stats\<close> belongs to the
      backend, of which the sources hold only the consumer (\<open>getStats\<close>, \<open>useStats\<close>,
      the home page). Section 4.7: total submission count, the distinct regions with at
      least one submission, cluster count, clause count, and a mapping from region to
      submission count with all regions present, zero-filled. The regions are
      \<open>GHANA_REGIONS\<close> of the submission page.\<close>
  "stats_aggregator subs n_clusters n_clauses =
     \<lparr>total_submissions = length subs,
      regions_represented = length (remdups (map sub_region subs)),
      clusters_formed = n_clusters,
      clauses_drafted = n_clauses,
      submissions_by_region = map (\<lambda>r. (r, region_count subs r)) GHANA_REGIONS\<rparr>"

definition one_per_region :: "Submission list" where
  \<comment> \<open>The scenario of section 8: one submission from each region.\<close>
  "one_per_region =
     map (\<lambda>(i, r). \<lparr>sub_id = i, sub_text = ''a submission text'', sub_region = r\<rparr>)
       (zip [0..<16] GHANA_REGIONS)"

section \<open>Scenarios\<close>

definition clause50 :: BillClause where
  \<comment> \<open>A clause whose approval rate starts at 50.\<close>
  "clause50 =
     \<lparr>id_c = 1, section_number = 1, title = ''Asset declaration'',
      content = ''Public officers declare their assets.'', rationale = ''Transparency'',
      cluster_id = 1, submission_count = 3, approval_rate = 50,
      created_at = ''2025-01-01'', updated_at = ''2025-01-01''\<rparr>"

definition clause30 :: BillClause where
  \<comment> \<open>A second clause, at 30.\<close>
  "clause30 =
     \<lparr>id_c = 2, section_number = 2, title = ''Penalties'',
      content = ''Unexplained assets are confiscated.'', rationale = ''Deterrence'',
      cluster_id = 2, submission_count = 2, approval_rate = 30,
      created_at = ''2025-01-01'', updated_at = ''2025-01-01''\<rparr>"

definition page50 :: page_state where
  \<comment> \<open>The bill page of a visitor who is not logged in, showing the first clause.\<close>
  "page50 = loaded None [clause50]"

definition page2 :: page_state where
  \<comment> \<open>The same with both clauses.\<close>
  "page2 = loaded None [clause50, clause30]"




definition rate07 :: real where
  \<comment> \<open>The double written \<open>0.7\<close>\<close>
  "rate07 = 3152519739159347 / 2 ^ 52"

definition rate03 :: real where
  \<comment> \<open>The double written \<open>0.3\<close>\<close>
  "rate03 = 5404319552844595 / 2 ^ 54"

definition events_before :: "toast_event list" where
  \<comment> \<open>What happened to the queue before the toast that is followed.\<close>
  "events_before = [Notify vote_failed_toast, Advance 3000]"

definition events_after :: "toast_event list" where
  \<comment> \<open>What happens after it: five seconds pass, another toast is raised meanwhile.\<close>
  "events_after = [Advance 1000, Notify already_voted_toast, Advance 4000]"

section \<open>Properties of \<open>truncateText\<close>\<close>

text \<open>
  C9, as stated, at a negative \<open>maxLength\<close>: \<open>truncateText("hello", -2)\<close> is neither
  the text unchanged nor its first \<open>maxLength\<close> characters followed by the dots, and
  its length is not \<open>maxLength + 3\<close>; \<open>slice(0, -2)\<close> drops the last two characters.
\<close>

theorem truncateText_negative_counterexample:
  "\<not> int (length ''hello'') \<le> - 2 \<and>
   truncateText ''hello'' (Some (- 2)) = ''hel...'' \<and>
   truncateText ''hello'' (Some (- 2)) \<noteq> take (nat (- 2)) ''hello'' @ ''...'' \<and>
   int (length (truncateText ''hello'' (Some (- 2)))) \<noteq> - 2 + 3"
  by (simp add: truncateText_def js_slice_def)

text \<open>
  C9, amended: for every text and every \<open>maxLength \<ge> 0\<close>, \<open>truncateText\<close> returns the
  text unchanged when its length is at most \<open>maxLength\<close>, and otherwise its first
  \<open>maxLength\<close> characters followed by three dots, a string of length \<open>maxLength + 3\<close>;
  the default \<open>maxLength\<close> is 100.
\<close>

theorem truncateText_nonneg:
  assumes "0 \<le> maxLength"
  shows "truncateText text (Some maxLength) =
           (if int (length text) \<le> maxLength then text
            else take (nat maxLength) text @ ''...'') \<and>
         (maxLength < int (length text) \<longrightarrow>
            int (length (truncateText text (Some maxLength))) = maxLength + 3) \<and>
         truncateText text None = truncateText text (Some 100)"
  using assms by (auto simp: truncateText_def js_slice_def Let_def min_def)

theorem truncateText_nonneg_witness:
  "(0::int) \<le> 5 \<and> (5::int) < int (length ''hello world'') \<and>
   truncateText ''hello world'' (Some 5) = ''hello...'' \<and>
   int (length (truncateText ''hello world'' (Some 5))) = 5 + 3 \<and>
   truncateText ''hello world'' None = ''hello world''"
  using truncateText_nonneg [of 5 "''hello world''"]
  by (simp add: truncateText_def)

section \<open>Properties of the numbers\<close>

lemma bit_length_bounds:
  "0 < n \<Longrightarrow> 2 ^ (bit_length n - 1) \<le> n \<and> n < 2 ^ bit_length n"
proof (induction n rule: bit_length.induct)
  case (1 n)
  show ?case
  proof (cases "n div 2 = 0")
    case True
    with "1.prems" have "n = 1" by (simp add: div_eq_0_iff) 
    then show ?thesis by (simp add: bit_length.simps)
  next
    case False
    then have pos: "0 < n div 2" by simp
    from "1.IH" [OF _ pos] "1.prems"
    have ih: "2 ^ (bit_length (n div 2) - 1) \<le> n div 2" "n div 2 < 2 ^ bit_length (n div 2)"
      by simp_all
    have bl: "bit_length n = Suc (bit_length (n div 2))"
      using "1.prems" by (subst bit_length.simps) simp
    have b0: "0 < bit_length (n div 2)"
      using pos by (subst bit_length.simps) simp
    then obtain k where k: "bit_length (n div 2) = Suc k" by (cases "bit_length (n div 2)") simp_all
    have "2 * 2 ^ k \<le> 2 * (n div 2)" using ih(1) k by simp
    also have "\<dots> \<le> n" by simp
    finally have lo: "2 ^ (bit_length n - 1) \<le> n" using bl k by simp
    have "n < 2 * (n div 2) + 2" by presburger
    also have "\<dots> \<le> 2 * 2 ^ bit_length (n div 2)" using ih(2) by simp
    finally have hi: "n < 2 ^ bit_length n" using bl by simp
    show ?thesis using lo hi by simp
  qed
qed

lemma binade_bounds:
  assumes "0 < x"
  shows "pow2 (binade x) \<le> x \<and> x < pow2 (binade x + 1)"
proof (cases "1 \<le> x")
  case True
  let ?n = "nat \<lfloor>x\<rfloor>"
  have n: "0 < ?n" using True by simp
  from bit_length_bounds [OF n]
  have lo: "2 ^ (bit_length ?n - 1) \<le> ?n" and hi: "?n < 2 ^ bit_length ?n" by simp_all
  have b0: "0 < bit_length ?n" using n by (subst bit_length.simps) simp
  have "real (2 ^ (bit_length ?n - 1)) \<le> real ?n" using lo by (simp only: of_nat_le_iff)
  also have "\<dots> \<le> x" using True by simp
  finally have l: "2 ^ (bit_length ?n - 1) \<le> x" by simp
  have "?n + 1 \<le> 2 ^ bit_length ?n" using hi by (metis Suc_leI Suc_eq_plus1)
  then have "real (?n + 1) \<le> real (2 ^ bit_length ?n)" by (simp only: of_nat_le_iff)
  moreover have "x < real (?n + 1)" using True by simp linarith
  ultimately have h: "x < 2 ^ bit_length ?n" by simp
  have e: "binade x = int (bit_length ?n) - 1" using True by (simp add: binade_def)
  have "nat (int (bit_length ?n) - 1) = bit_length ?n - 1" by simp
  moreover have "nat (int (bit_length ?n) - 1 + 1) = bit_length ?n" by simp
  ultimately show ?thesis
    using l h b0 by (simp add: e pow2_def)
next
  case False
  then have x1: "x < 1" by simp
  let ?m = "nat (\<lceil>1 / x\<rceil> - 1)"
  have y: "1 < 1 / x" using assms x1 by simp
  then have c2: "2 \<le> \<lceil>1 / x\<rceil>" by linarith
  then have m: "0 < ?m" by linarith
  from bit_length_bounds [OF m]
  have lo: "2 ^ (bit_length ?m - 1) \<le> ?m" and hi: "?m < 2 ^ bit_length ?m" by simp_all
  have b0: "0 < bit_length ?m" using m by (subst bit_length.simps) simp
  have nn: "0 \<le> \<lceil>1 / x\<rceil> - 1" using c2 by linarith
  have "real ?m = of_int (\<lceil>1 / x\<rceil> - 1)" using nn by (simp only: of_nat_nat)
  then have mr: "real ?m = of_int \<lceil>1 / x\<rceil> - 1" by simp
  have "real ?m + 1 \<le> real (2 ^ bit_length ?m)"
    using hi by (metis Suc_leI of_nat_Suc of_nat_le_iff add.commute plus_1_eq_Suc)
  then have "of_int \<lceil>1 / x\<rceil> \<le> (2::real) ^ bit_length ?m" using mr by simp
  then have "1 / x \<le> 2 ^ bit_length ?m" by linarith
  then have l: "1 / 2 ^ bit_length ?m \<le> x"
    using assms by (simp add: field_simps)
  have "real (2 ^ (bit_length ?m - 1)) \<le> real ?m" using lo by (simp only: of_nat_le_iff)
  then have "(2::real) ^ (bit_length ?m - 1) \<le> of_int \<lceil>1 / x\<rceil> - 1" using mr by simp
  also have "\<dots> < 1 / x" by linarith
  finally have "(2::real) ^ (bit_length ?m - 1) < 1 / x" .
  then have h: "x < 1 / 2 ^ (bit_length ?m - 1)"
    using assms by (simp add: field_simps)
  have e: "binade x = - int (bit_length ?m)" using False by (simp add: binade_def)
  show ?thesis
  proof (cases "bit_length ?m = 1")
    case True
    then show ?thesis using l h by (simp add: e pow2_def)
  next
    case False
    with b0 have "1 < bit_length ?m" by simp
    then have "nat (int (bit_length ?m) - 1) = bit_length ?m - 1"
      and "\<not> 0 \<le> - int (bit_length ?m) + 1" by simp_all
    then show ?thesis using l h b0 by (simp add: e pow2_def)
  qed
qed

lemmas fl_eval = fl_def binade_def pow2_def round_half_even_def Let_def bit_length.simps

section \<open>Properties of the vote handler\<close>

lemma update_clause_id [simp]: "id_c (update_clause cid v c) = id_c c"
  by (simp add: update_clause_def)

lemma update_clause_rate:
  "approval_rate (update_clause cid v c) =
     (if id_c c = cid then clamp_0_100 (js_add (Fin (approval_rate c)) (adjustment v))
      else approval_rate c)"
  by (simp add: update_clause_def)

lemma clamp_in_range: "in_range (clamp_0_100 d)"
  by (cases d) (simp_all add: in_range_def)

lemma update_clause_keeps_range:
  "in_range (approval_rate c) \<Longrightarrow> in_range (approval_rate (update_clause cid v c))"
  by (simp add: update_clause_rate clamp_in_range)

lemma rates_ok_update: "rates_ok cs \<Longrightarrow> rates_ok (map (update_clause cid v) cs)"
  by (simp add: rates_ok_def list_all_iff update_clause_keeps_range)

lemma find_pending_in: "find_pending n s = Some p \<Longrightarrow> p \<in> set (pending s)"
  by (auto simp: find_pending_def find_Some_iff)

lemma page_ok_step:
  assumes "page_ok s"
  shows "page_ok (page_step e s)"
proof (cases e)
  case (Vote cid v)
  then show ?thesis
    using assms by (simp add: page_ok_def handleVote_def)
next
  case (Resolved n)
  show ?thesis
  proof (cases "find_pending n s")
    case None
    then show ?thesis using assms Resolved by (simp add: handleVote_resolved_def)
  next
    case (Some p)
    then have "rates_ok (pv_clauses p)"
      using assms find_pending_in [OF Some] by (simp add: page_ok_def list_all_iff)
    then show ?thesis
      using assms Resolved Some
      by (simp add: handleVote_resolved_def page_ok_def drop_pending_def rates_ok_update
          list_all_iff)
  qed
next
  case (Rejected n)
  then show ?thesis
    using assms
    by (cases "find_pending n s")
      (simp_all add: handleVote_rejected_def page_ok_def drop_pending_def list_all_iff)
qed

lemma page_ok_run: "page_ok s \<Longrightarrow> page_ok (run_page es s)"
proof (induction es arbitrary: s)
  case Nil
  then show ?case by simp
next
  case (Cons e es)
  have "page_ok (page_step e s)" by (rule page_ok_step [OF Cons.prems])
  then have "page_ok (run_page es (page_step e s))" by (rule Cons.IH)
  then show ?case by simp
qed

text \<open>
  C1: the update of \<open>handleVote\<close> leaves the rate of the clause voted on within
  \<open>[0, 100]\<close>, whatever it was before; and when the rates on the page, and those the
  waiting calls started with, are within \<open>[0, 100]\<close>, every clause is within
  \<open>[0, 100]\<close> after any sequence of votes and answers, in any order.
\<close>

theorem approval_rate_stays_in_range:
  "in_range (approval_rate (update_clause (id_c c) v c)) \<and>
   ((\<forall>c \<in> set (clauses s). in_range (approval_rate c)) \<and>
    (\<forall>p \<in> set (pending s). \<forall>c \<in> set (pv_clauses p). in_range (approval_rate c)) \<longrightarrow>
    (\<forall>c \<in> set (clauses (run_page es s)). in_range (approval_rate c)))"
proof -
  have one: "in_range (approval_rate (update_clause (id_c c) v c))"
    by (simp add: update_clause_rate clamp_in_range)
  have all: "\<forall>c \<in> set (clauses (run_page es s)). in_range (approval_rate c)"
    if a: "\<forall>c \<in> set (clauses s). in_range (approval_rate c)"
      and b: "\<forall>p \<in> set (pending s). \<forall>c \<in> set (pv_clauses p). in_range (approval_rate c)"
  proof -
    have "page_ok s"
      unfolding page_ok_def rates_ok_def list_all_iff using a b by blast
    then have "page_ok (run_page es s)" by (rule page_ok_run)
    then show ?thesis
      unfolding page_ok_def rates_ok_def list_all_iff by blast
  qed
  show ?thesis using one all by blast
qed

lemma page2_eval:
  "clauses page2 = [clause50, clause30]" "votedClauses page2 = {}" "requests page2 = 0"
  "pending page2 = []" "posted page2 = []" "auth_token page2 = None"
  by (simp_all add: page2_def loaded_def)

theorem approval_rate_stays_in_range_witness:
  "in_range (approval_rate (update_clause (id_c clause50) approve clause50)) \<and>
   list_all (\<lambda>c. in_range (approval_rate c)) (clauses (handleVote 1 approve page2)) \<and>
   map pv_clauses (pending (handleVote 1 approve page2)) = [[clause50, clause30]] \<and>
   list_all (\<lambda>p. list_all (\<lambda>c. in_range (approval_rate c)) (pv_clauses p))
     (pending (handleVote 1 approve page2)) \<and>
   list_all (\<lambda>c. in_range (approval_rate c))
     (clauses (run_page [Vote 2 reject, Resolved 1, Resolved 0, Vote 1 reject]
        (handleVote 1 approve page2)))"
proof -
  have p: "map pv_clauses (pending (handleVote 1 approve page2)) = [[clause50, clause30]]"
    and c: "clauses (handleVote 1 approve page2) = [clause50, clause30]"
    by (simp_all add: handleVote_def page2_eval)
  have r: "in_range (approval_rate clause50)" "in_range (approval_rate clause30)"
    by (simp_all add: clause50_def clause30_def in_range_def)
  have a: "\<forall>c \<in> set (clauses (handleVote 1 approve page2)). in_range (approval_rate c)"
    using r by (simp add: c)
  have "\<forall>cs \<in> set (map pv_clauses (pending (handleVote 1 approve page2))).
      \<forall>c \<in> set cs. in_range (approval_rate c)"
    using r by (simp only: p) simp
  then have b: "\<forall>p \<in> set (pending (handleVote 1 approve page2)).
      \<forall>c \<in> set (pv_clauses p). in_range (approval_rate c)"
    by simp
  from approval_rate_stays_in_range
    [of clause50 approve "handleVote 1 approve page2"
        "[Vote 2 reject, Resolved 1, Resolved 0, Vote 1 reject]"]
    a b p
  show ?thesis unfolding list_all_iff by blast
qed














lemma page50_eval:
  "clauses page50 = [clause50]" "votedClauses page50 = {}" "requests page50 = 0"
  "pending page50 = []" "posted page50 = []" "auth_token page50 = None"
  by (simp_all add: page50_def loaded_def)







lemma run_page_append: "run_page (es @ es') s = run_page es' (run_page es s)"
  by (induction es arbitrary: s) simp_all

lemma posted_resolved [simp]:
  "posted (handleVote_resolved n s) = posted s" "posted (handleVote_rejected n s) = posted s"
  by (simp_all add: handleVote_resolved_def handleVote_rejected_def split: option.splits)










section \<open>Properties of the average approval\<close>

lemma foldl_js_add:
  "foldl (\<lambda>sum c. js_add sum (approval_rate c)) a cs = foldl js_add a (map approval_rate cs)"
  by (induction cs arbitrary: a) simp_all

lemma average_double_mean:
  "cs \<noteq> [] \<Longrightarrow> average_approval cs = Some (Math_round (double_mean (map approval_rate cs)))"
  by (simp add: average_approval_def js_div_length_def double_mean_def foldl_js_add
      split: double.splits)

text \<open>
  C10, amended: the average approval never divides by zero; it is 0 for the empty
  clause list, and for a non-empty list it is \<open>Math.round\<close> of the mean computed in
  double arithmetic, the running sum of the rates from 0 in list order divided by
  their number. For a single clause it is the rounded rate.
\<close>

theorem average_approval_computed:
  "average_approval cs \<noteq> None \<and>
   average_approval [] = Some (Fin 0) \<and>
   (cs \<noteq> [] \<longrightarrow>
      average_approval cs = Some (Math_round (double_mean (map approval_rate cs)))) \<and>
   (is_double (approval_rate c) \<longrightarrow>
      average_approval [c] = Some (Fin (of_int \<lfloor>approval_rate c + 1 / 2\<rfloor>)))"
proof -
  have a: "average_approval cs \<noteq> None"
  proof (cases "cs = []")
    case True
    then show ?thesis by (simp add: average_approval_def)
  next
    case False
    then show ?thesis using average_double_mean [OF False] by simp
  qed
  have b: "average_approval [] = Some (Fin 0)"
    by (simp add: average_approval_def)
  have d: "average_approval [c] = Some (Fin (of_int \<lfloor>approval_rate c + 1 / 2\<rfloor>))"
    if "is_double (approval_rate c)"
    using that by (simp add: average_double_mean double_mean_def is_double_def)
  show ?thesis using a b d average_double_mean by blast
qed

lemma doubles: "is_double rate07" "is_double rate03"
  by (simp_all add: is_double_def rate07_def rate03_def fl_eval)

lemma sum07: "js_add (js_add (Fin 0) rate07) rate03 = Fin 1"
  by (simp add: rate07_def rate03_def fl_eval)

lemma half: "fl (1 / 2) = Fin (1 / 2)"
  by (simp add: fl_eval)

text \<open>
  C10, as stated, at the two rates \<open>0.7\<close> and \<open>0.3\<close>: their sum in double arithmetic
  is 1, the page shows \<open>Math.round(0.5) = 1\<close>, and the arithmetic mean of the two
  doubles, just below one half, rounds to 0.
\<close>

theorem average_approval_counterexample:
  "is_double rate07 \<and> is_double rate03 \<and>
   average_approval [clause50\<lparr>approval_rate := rate07\<rparr>, clause50\<lparr>approval_rate := rate03\<rparr>] =
     Some (Fin 1) \<and>
   Math_round (Fin ((rate07 + rate03) / 2)) = Fin 0 \<and>
   average_approval [clause50\<lparr>approval_rate := rate07\<rparr>, clause50\<lparr>approval_rate := rate03\<rparr>] \<noteq>
     Some (Math_round (Fin ((rate07 + rate03) / 2)))"
proof -
  have m: "Math_round (Fin ((rate07 + rate03) / 2)) = Fin 0"
    by (simp add: rate07_def rate03_def)
  have a: "average_approval [clause50\<lparr>approval_rate := rate07\<rparr>, clause50\<lparr>approval_rate := rate03\<rparr>] =
     Some (Fin 1)"
    using sum07 half by (simp add: average_double_mean double_mean_def)
  show ?thesis using doubles m a by simp
qed

theorem average_approval_computed_witness:
  "[clause50, clause50\<lparr>approval_rate := 51\<rparr>] \<noteq> [] \<and>
   average_approval [clause50, clause50\<lparr>approval_rate := 51\<rparr>] = Some (Fin 51) \<and>
   is_double (approval_rate clause50) \<and>
   average_approval [clause50] = Some (Fin 50)"
proof -
  have d: "is_double (approval_rate clause50)"
    by (simp add: is_double_def clause50_def fl_eval)
  have m: "Math_round (double_mean (map approval_rate [clause50, clause50\<lparr>approval_rate := 51\<rparr>])) =
      Fin 51"
    by (simp add: double_mean_def clause50_def fl_eval)
  from average_approval_computed [of "[clause50, clause50\<lparr>approval_rate := 51\<rparr>]" clause50] d m
  show ?thesis by (simp add: clause50_def)
qed

section \<open>Properties of the submission schema\<close>

lemma errors_at_content:
  "errors_at ''content'' (submissionSchema inp) =
     (if length (in_content inp) < 10 then Some content_min_issue
      else if 5000 < length (in_content inp) then Some content_max_issue
      else None)"
  by (simp add: errors_at_def submissionSchema_def check_content_def check_region_def
      check_agree_terms_def content_min_issue_def content_max_issue_def region_issue_def
      agree_terms_issue_def Let_def)

lemma age_never_rejected:
  "isl (submissionSchema (inp\<lparr>in_age := a\<rparr>)) = isl (submissionSchema inp)"
  by (simp add: submissionSchema_def Let_def)

text \<open>
  C4: the schema reports an error on the content exactly when its length is below 10
  or above 5000, the error being the one of the bound that is violated (kind
  \<open>too_small\<close> with the message of the minimum, kind \<open>too_big\<close> with the message of the
  maximum), and the submission is then rejected; a content of 10 to 5000 characters
  has no content error; the content \<open>ok\<close> gets the minimum-length error.
\<close>

theorem content_length_validation:
  "errors_at ''content'' (submissionSchema inp) =
     (if length (in_content inp) < 10 then Some content_min_issue
      else if 5000 < length (in_content inp) then Some content_max_issue
      else None) \<and>
   (length (in_content inp) < 10 \<or> 5000 < length (in_content inp)
      \<longrightarrow> isl (submissionSchema inp)) \<and>
   issue_kind content_min_issue = too_small \<and>
   issue_message content_min_issue = ''Your submission must be at least 10 characters'' \<and>
   issue_kind content_max_issue = too_big \<and>
   issue_message content_max_issue = ''Your submission must be less than 5000 characters'' \<and>
   errors_at ''content'' (submissionSchema (inp\<lparr>in_content := ''ok''\<rparr>)) = Some content_min_issue"
  by (simp add: errors_at_content)
    (auto simp: submissionSchema_def check_content_def Let_def content_min_issue_def
      content_max_issue_def)

theorem content_length_validation_witness:
  "length (in_content ((valid_input None)\<lparr>in_content := ''ok''\<rparr>)) < 10 \<and>
   isl (submissionSchema ((valid_input None)\<lparr>in_content := ''ok''\<rparr>)) \<and>
   errors_at ''content'' (submissionSchema ((valid_input None)\<lparr>in_content := ''ok''\<rparr>)) =
     Some content_min_issue \<and>
   errors_at ''content'' (submissionSchema (valid_input None)) = None"
  using content_length_validation [of "(valid_input None)\<lparr>in_content := ''ok''\<rparr>"]
    content_length_validation [of "valid_input None"]
  by (simp add: valid_input_def)

text \<open>
  C5 at ages the schema lets through: with the age field holding \<open>999\<close> the submission
  is accepted and sent with age 999, outside the bounds 18 and 120 that the age input
  declares; \<open>1e2\<close>, which a number input takes as 100, is sent as 1; and \<open>25.7\<close>
  is sent as 25.
\<close>

theorem age_not_validated:
  "handleSubmit (valid_input (Some ''999'')) =
     Inr \<lparr>p_content = ''Officials must declare all assets.'', p_region = ''Volta'',
          p_age = Some (Finite 999), p_occupation = Some ''Teacher'', p_language = ''en''\<rparr> \<and>
   \<not> plausible_age (Finite 999) \<and>
   handleSubmit (valid_input (Some ''1e2'')) =
     Inr \<lparr>p_content = ''Officials must declare all assets.'', p_region = ''Volta'',
          p_age = Some (Finite 1), p_occupation = Some ''Teacher'', p_language = ''en''\<rparr> \<and>
   \<not> plausible_age (Finite 1) \<and>
   handleSubmit (valid_input (Some ''25.7'')) =
     Inr \<lparr>p_content = ''Officials must declare all assets.'', p_region = ''Volta'',
          p_age = Some (Finite 25), p_occupation = Some ''Teacher'', p_language = ''en''\<rparr>"
  by (simp add: handleSubmit_def submissionSchema_def valid_input_def check_content_def
      check_region_def check_agree_terms_def transform_age_def onSubmit_def plausible_age_def
      age_input_min_def age_input_max_def
      parseInt_def is_white_space_def digit_value_def digits_number_def)

section \<open>Properties of the statistics\<close>

lemma distinct_regions: "distinct GHANA_REGIONS"
  by (simp add: GHANA_REGIONS_def)

lemma length_regions: "length GHANA_REGIONS = 16"
  by (simp add: GHANA_REGIONS_def)

lemma map_of_tabulate:
  "map_of (map (\<lambda>r. (r, f r)) rs) r = (if r \<in> set rs then Some (f r) else None)"
  by (induction rs) auto

lemma region_count_zero: "r \<notin> sub_region ` set subs \<Longrightarrow> region_count subs r = 0"
  by (auto simp: region_count_def filter_empty_conv)

lemma region_count_distinct:
  "distinct (map sub_region subs) \<Longrightarrow> r \<in> sub_region ` set subs \<Longrightarrow> region_count subs r = 1"
proof (induction subs)
  case Nil
  then show ?case by simp
next
  case (Cons s subs)
  show ?case
  proof (cases "sub_region s = r")
    case True
    then have "r \<notin> sub_region ` set subs" using Cons.prems(1) by auto
    then have "region_count subs r = 0" by (rule region_count_zero)
    then show ?thesis using True by (simp add: region_count_def)
  next
    case False
    then have "region_count subs r = 1" using Cons by auto
    then show ?thesis using False by (simp add: region_count_def)
  qed
qed

lemma one_per_region_regions: "map sub_region one_per_region = GHANA_REGIONS"
  by (simp add: one_per_region_def GHANA_REGIONS_def upt_rec)

text \<open>
  C6: in the statistics the mapping \<open>submissions_by_region\<close> has exactly the 16 regions
  of \<open>GHANA_REGIONS\<close> as keys, each with the number of submissions from that region,
  which is 0 for a region without submissions; \<open>regions_represented\<close> is the number of
  distinct regions with at least one submission; and with one submission from each of
  the 16 regions, \<open>regions_represented\<close> is 16 and every region maps to 1.
\<close>

theorem stats_by_region:
  "map fst (submissions_by_region (stats_aggregator subs n_clusters n_clauses)) = GHANA_REGIONS \<and>
   length GHANA_REGIONS = 16 \<and> distinct GHANA_REGIONS \<and>
   (\<forall>r \<in> set GHANA_REGIONS.
      map_of (submissions_by_region (stats_aggregator subs n_clusters n_clauses)) r =
        Some (length (filter (\<lambda>s. sub_region s = r) subs))) \<and>
   (\<forall>r \<in> set GHANA_REGIONS. r \<notin> sub_region ` set subs \<longrightarrow>
      map_of (submissions_by_region (stats_aggregator subs n_clusters n_clauses)) r = Some 0) \<and>
   regions_represented (stats_aggregator subs n_clusters n_clauses) =
      card (sub_region ` set subs) \<and>
   (distinct (map sub_region subs) \<and> set (map sub_region subs) = set GHANA_REGIONS \<longrightarrow>
      regions_represented (stats_aggregator subs n_clusters n_clauses) = 16 \<and>
      submissions_by_region (stats_aggregator subs n_clusters n_clauses) =
        map (\<lambda>r. (r, 1)) GHANA_REGIONS)"
proof -
  let ?st = "stats_aggregator subs n_clusters n_clauses"
  have keys: "map fst (submissions_by_region ?st) = GHANA_REGIONS"
    by (simp add: stats_aggregator_def o_def)
  have look: "map_of (submissions_by_region ?st) r = Some (region_count subs r)"
    if "r \<in> set GHANA_REGIONS" for r
    using that by (simp add: stats_aggregator_def map_of_tabulate)
  have repr: "regions_represented ?st = card (sub_region ` set subs)"
    by (simp add: stats_aggregator_def length_remdups_card_conv)
  have scen: "regions_represented ?st = 16 \<and>
      submissions_by_region ?st = map (\<lambda>r. (r, 1)) GHANA_REGIONS"
    if d: "distinct (map sub_region subs)" and e: "set (map sub_region subs) = set GHANA_REGIONS"
  proof -
    have "card (sub_region ` set subs) = 16"
      using e distinct_card [OF distinct_regions] length_regions by simp
    moreover have "region_count subs r = 1" if "r \<in> set GHANA_REGIONS" for r
      using region_count_distinct [OF d] that e by simp
    ultimately show ?thesis
      using repr by (simp add: stats_aggregator_def)
  qed
  have look': "map_of (submissions_by_region ?st) r =
      Some (length (filter (\<lambda>s. sub_region s = r) subs))"
    if "r \<in> set GHANA_REGIONS" for r
    using look [OF that] by (simp add: region_count_def)
  have zero: "map_of (submissions_by_region ?st) r = Some 0"
    if "r \<in> set GHANA_REGIONS" and "r \<notin> sub_region ` set subs" for r
    using look [OF that(1)] region_count_zero [OF that(2)] by simp
  show ?thesis
    using keys look' zero repr scen length_regions distinct_regions
    by blast
qed

theorem stats_by_region_witness:
  "distinct (map sub_region one_per_region) \<and>
   set (map sub_region one_per_region) = set GHANA_REGIONS \<and>
   regions_represented (stats_aggregator one_per_region 2 2) = 16 \<and>
   submissions_by_region (stats_aggregator one_per_region 2 2) = map (\<lambda>r. (r, 1)) GHANA_REGIONS \<and>
   ''Volta'' \<in> set GHANA_REGIONS \<and> ''Volta'' \<notin> sub_region ` set [] \<and>
   map_of (submissions_by_region (stats_aggregator [] 0 0)) ''Volta'' = Some 0 \<and>
   map_of (submissions_by_region (stats_aggregator one_per_region 2 2)) ''Volta'' = Some 1"
proof -
  have d: "distinct (map sub_region one_per_region)"
    and e: "set (map sub_region one_per_region) = set GHANA_REGIONS"
    by (simp_all add: one_per_region_regions distinct_regions)
  have v: "''Volta'' \<in> set GHANA_REGIONS"
    by (simp add: GHANA_REGIONS_def)
  from stats_by_region [of one_per_region 2 2] stats_by_region [of "[]" 0 0] d e v
  show ?thesis
    by (simp add: map_of_tabulate)
qed


section \<open>Properties of the notification queue\<close>

lemma remove_toast_Nil [simp]: "remove_toast i [] = []"
  by (simp add: remove_toast_def)

lemma remove_toast_Cons [simp]:
  "remove_toast i (t # ts) = (if t_id t = i then ts else t # remove_toast i ts)"
  by (cases "findIndex (\<lambda>t. t_id t = i) ts") (simp_all add: remove_toast_def splice1_def)

lemma ids_remove_toast: "map t_id (remove_toast i ts) = remove1 i (map t_id ts)"
  by (induction ts) auto

lemma ids_fire:
  "map t_id (foldl (\<lambda>ts (d, i). remove_toast i ts) ts due) =
     foldl (\<lambda>xs (d, i). remove1 i xs) (map t_id ts) due"
  by (induction due arbitrary: ts) (auto simp: ids_remove_toast)

lemma fire_ids:
  "distinct xs \<Longrightarrow>
   distinct (foldl (\<lambda>xs (d, i). remove1 i xs) xs due) \<and>
   set (foldl (\<lambda>xs (d, i). remove1 i xs) xs due) = set xs - snd ` set due"
proof (induction due arbitrary: xs)
  case Nil
  then show ?case by simp
next
  case (Cons e due)
  obtain d i where e: "e = (d, i)" by (cases e)
  have "distinct (remove1 i xs)" using Cons.prems by simp
  from Cons.IH [OF this] show ?case
    using Cons.prems by (auto simp: e)
qed

lemma toast_inv_toast:
  assumes "toast_inv s"
  shows "toast_inv (toast p s)"
proof -
  have t: "\<forall>e \<in> set (timers s). now s < fst e \<and> snd e < toastId s"
    and q: "\<forall>i \<in> set (map t_id (toasts s)). i \<in> snd ` set (timers s)"
    and d: "distinct (map t_id (toasts s))"
    using assms by (simp_all add: toast_inv_def)
  have fresh: "toastId s \<notin> set (map t_id (toasts s))"
  proof
    assume "toastId s \<in> set (map t_id (toasts s))"
    with q have "toastId s \<in> snd ` set (timers s)" by blast
    with t show False by auto
  qed
  have "\<forall>e \<in> set (timers (toast p s)). now (toast p s) < fst e \<and> snd e < toastId (toast p s)"
    using t by (auto simp: toast_def retention_delay_def)
  moreover have "\<forall>i \<in> set (map t_id (toasts (toast p s))). i \<in> snd ` set (timers (toast p s))"
    using q by (auto simp: toast_def)
  moreover have "distinct (map t_id (toasts (toast p s)))"
    using d fresh by (simp add: toast_def)
  ultimately show ?thesis by (simp add: toast_inv_def)
qed

lemma toast_inv_dismiss:
  assumes "toast_inv s"
  shows "toast_inv (dismiss i s)"
proof -
  have "set (map t_id (toasts (dismiss i s))) \<subseteq> set (map t_id (toasts s))"
    using set_remove1_subset [of i "map t_id (toasts s)"]
    by (simp add: dismiss_def ids_remove_toast)
  moreover have "distinct (map t_id (toasts (dismiss i s)))"
    using assms by (simp add: toast_inv_def dismiss_def ids_remove_toast)
  moreover have "timers (dismiss i s) = timers s" "now (dismiss i s) = now s"
    "toastId (dismiss i s) = toastId s"
    by (simp_all add: dismiss_def)
  ultimately show ?thesis
    using assms unfolding toast_inv_def by auto
qed

lemma advance_fields:
  "now (advance dt s) = now s + dt"
  "toastId (advance dt s) = toastId s"
  "timers (advance dt s) = filter (\<lambda>(d, i). \<not> d \<le> now s + dt) (timers s)"
  "map t_id (toasts (advance dt s)) =
     foldl (\<lambda>xs (d, i). remove1 i xs) (map t_id (toasts s))
       (filter (\<lambda>(d, i). d \<le> now s + dt) (timers s))"
  by (simp_all add: advance_def Let_def ids_fire)

lemma toast_inv_advance:
  assumes "toast_inv s"
  shows "toast_inv (advance dt s)"
proof -
  let ?due = "filter (\<lambda>(d, i). d \<le> now s + dt) (timers s)"
  have t: "\<forall>e \<in> set (timers s). now s < fst e \<and> snd e < toastId s"
    and q: "\<forall>i \<in> set (map t_id (toasts s)). i \<in> snd ` set (timers s)"
    and d: "distinct (map t_id (toasts s))"
    using assms by (simp_all add: toast_inv_def)
  note f = fire_ids [OF d, of ?due]
  have "\<forall>e \<in> set (timers (advance dt s)).
      now (advance dt s) < fst e \<and> snd e < toastId (advance dt s)"
    using t by (auto simp: advance_fields)
  moreover have "i \<in> snd ` set (timers (advance dt s))"
    if "i \<in> set (map t_id (toasts (advance dt s)))" for i
  proof -
    from that f have i: "i \<in> set (map t_id (toasts s))" and n: "i \<notin> snd ` set ?due"
      by (simp_all add: advance_fields(4))
    from i q obtain e where e: "e \<in> set (timers s)" "snd e = i" by auto
    with n have "\<not> fst e \<le> now s + dt" by force
    with e show ?thesis by (force simp: advance_fields(3))
  qed
  moreover have "distinct (map t_id (toasts (advance dt s)))"
    using f by (simp add: advance_fields(4))
  ultimately show ?thesis unfolding toast_inv_def by blast
qed

lemma toast_inv_step: "toast_inv s \<Longrightarrow> toast_inv (toast_step e s)"
  by (cases e) (simp_all add: toast_inv_toast toast_inv_dismiss toast_inv_advance)

lemma timer_at_step:
  assumes "timer_at k D s"
  shows "timer_at k D (toast_step e s)"
proof (cases e)
  case (Notify p)
  then show ?thesis using assms by (auto simp: timer_at_def toast_def)
next
  case (Dismiss i)
  then show ?thesis using assms by (simp add: timer_at_def dismiss_def)
next
  case (Advance dt)
  then show ?thesis using assms by (auto simp: timer_at_def advance_fields)
qed

lemma run_toasts_Nil: "run_toasts [] s = s"
  by (simp add: run_toasts_def)

lemma run_toasts_Cons: "run_toasts (e # es) s = run_toasts es (toast_step e s)"
  by (simp add: run_toasts_def)

lemma run_toasts_inv:
  "toast_inv s \<Longrightarrow> toast_inv (run_toasts es s)"
  by (induction es arbitrary: s) (simp_all add: toast_inv_step run_toasts_Nil run_toasts_Cons)

lemma run_toasts_timer_at:
  "timer_at k D s \<Longrightarrow> timer_at k D (run_toasts es s)"
  by (induction es arbitrary: s) (simp_all add: timer_at_step run_toasts_Nil run_toasts_Cons)

lemma toast_inv_init: "toast_inv (toast_init t0)"
  by (simp add: toast_inv_def toast_init_def)

lemma timer_at_toast:
  assumes "toast_inv s"
  shows "timer_at (toastId s) (now s + retention_delay) (toast p s)"
proof -
  have "\<forall>e \<in> set (timers s). snd e < toastId s"
    using assms by (simp add: toast_inv_def)
  then show ?thesis
    by (auto simp: timer_at_def toast_def)
qed

lemma expired_not_queued:
  assumes "toast_inv s" and "timer_at k D s" and "D \<le> now s"
  shows "\<not> queued k s"
proof
  assume "queued k s"
  then have "k \<in> snd ` set (timers s)"
    using assms(1) by (auto simp: toast_inv_def queued_def)
  then obtain e where e: "e \<in> set (timers s)" "snd e = k" by auto
  then have "fst e = D" using assms(2) by (simp add: timer_at_def)
  moreover have "now s < fst e" using e assms(1) by (simp add: toast_inv_def)
  ultimately show False using assms(3) by simp
qed

lemma now_step: "now s \<le> now (toast_step e s)"
  by (cases e) (simp_all add: toast_def dismiss_def advance_fields)

lemma now_run: "now s \<le> now (run_toasts es s)"
proof (induction es arbitrary: s)
  case Nil
  then show ?case by (simp add: run_toasts_Nil)
next
  case (Cons e es)
  have "now s \<le> now (toast_step e s)" by (rule now_step)
  also have "\<dots> \<le> now (run_toasts es (toast_step e s))" by (rule Cons.IH)
  finally show ?case by (simp add: run_toasts_Cons)
qed

lemma queued_step:
  assumes "queued k s" and "toast_inv s" and "timer_at k D s"
    and "e \<noteq> Dismiss k" and "now (toast_step e s) < D"
  shows "queued k (toast_step e s)"
proof (cases e)
  case (Notify p)
  then show ?thesis using assms(1) by (simp add: queued_def toast_def)
next
  case (Dismiss i)
  with assms(4) have "i \<noteq> k" by simp
  then show ?thesis
    using assms(1) Dismiss by (simp add: queued_def dismiss_def ids_remove_toast)
next
  case (Advance dt)
  let ?due = "filter (\<lambda>(d, i). d \<le> now s + dt) (timers s)"
  have d: "distinct (map t_id (toasts s))"
    using assms(2) by (simp add: toast_inv_def)
  have "k \<notin> snd ` set ?due"
  proof
    assume "k \<in> snd ` set ?due"
    then obtain e' where e': "e' \<in> set (timers s)" "fst e' \<le> now s + dt" "snd e' = k"
      by auto
    then have "fst e' = D" using assms(3) by (simp add: timer_at_def)
    with e'(2) assms(5) Advance show False by (simp add: advance_fields)
  qed
  then show ?thesis
    using assms(1) fire_ids [OF d, of ?due] Advance
    by (simp add: queued_def advance_fields(4))
qed

lemma queued_run:
  assumes "queued k s" and "toast_inv s" and "timer_at k D s"
    and "Dismiss k \<notin> set es" and "now (run_toasts es s) < D"
  shows "queued k (run_toasts es s)"
  using assms
proof (induction es arbitrary: s)
  case Nil
  then show ?case by (simp add: run_toasts_Nil)
next
  case (Cons e es)
  have "now (toast_step e s) \<le> now (run_toasts es (toast_step e s))" by (rule now_run)
  with Cons.prems(5) have n: "now (toast_step e s) < D" by (simp add: run_toasts_Cons)
  have ne: "e \<noteq> Dismiss k" using Cons.prems(4) by auto
  have "queued k (run_toasts es (toast_step e s))"
  proof (rule Cons.IH)
    show "queued k (toast_step e s)"
      by (rule queued_step [OF Cons.prems(1-3) ne n])
    show "toast_inv (toast_step e s)" by (rule toast_inv_step [OF Cons.prems(2)])
    show "timer_at k D (toast_step e s)" by (rule timer_at_step [OF Cons.prems(3)])
    show "Dismiss k \<notin> set es" using Cons.prems(4) by simp
    show "now (run_toasts es (toast_step e s)) < D"
      using Cons.prems(5) by (simp add: run_toasts_Cons)
  qed
  then show ?case by (simp add: run_toasts_Cons)
qed

text \<open>
  C8: a toast raised at any moment of the module's life is in the queue right after;
  once 5000 milliseconds have passed since then it is not in the queue, whatever was
  raised, dismissed or fired in between; and before that it is still in the queue
  unless it was dismissed.
\<close>

theorem toast_removed_after_delay:
  "queued (toastId (run_toasts es0 (toast_init t0)))
      (toast p (run_toasts es0 (toast_init t0))) \<and>
   (now (run_toasts es0 (toast_init t0)) + 5000
        \<le> now (run_toasts es (toast p (run_toasts es0 (toast_init t0)))) \<longrightarrow>
    \<not> queued (toastId (run_toasts es0 (toast_init t0)))
        (run_toasts es (toast p (run_toasts es0 (toast_init t0))))) \<and>
   (Dismiss (toastId (run_toasts es0 (toast_init t0))) \<notin> set es \<and>
    now (run_toasts es (toast p (run_toasts es0 (toast_init t0))))
        < now (run_toasts es0 (toast_init t0)) + 5000 \<longrightarrow>
    queued (toastId (run_toasts es0 (toast_init t0)))
        (run_toasts es (toast p (run_toasts es0 (toast_init t0)))))"
proof -
  let ?s = "run_toasts es0 (toast_init t0)"
  let ?D = "now ?s + retention_delay"
  have i: "toast_inv ?s" by (rule run_toasts_inv [OF toast_inv_init])
  have i1: "toast_inv (toast p ?s)" by (rule toast_inv_toast [OF i])
  have k1: "timer_at (toastId ?s) ?D (toast p ?s)" by (rule timer_at_toast [OF i])
  have q1: "queued (toastId ?s) (toast p ?s)"
    by (simp add: queued_def toast_def)
  have gone: "\<not> queued (toastId ?s) (run_toasts es (toast p ?s))"
    if "now ?s + 5000 \<le> now (run_toasts es (toast p ?s))"
  proof (rule expired_not_queued)
    show "toast_inv (run_toasts es (toast p ?s))" by (rule run_toasts_inv [OF i1])
    show "timer_at (toastId ?s) ?D (run_toasts es (toast p ?s))"
      by (rule run_toasts_timer_at [OF k1])
    show "?D \<le> now (run_toasts es (toast p ?s))"
      using that by (simp add: retention_delay_def)
  qed
  have kept: "queued (toastId ?s) (run_toasts es (toast p ?s))"
    if "Dismiss (toastId ?s) \<notin> set es"
      and "now (run_toasts es (toast p ?s)) < now ?s + 5000"
  proof (rule queued_run [OF q1 i1 k1 that(1)])
    show "now (run_toasts es (toast p ?s)) < ?D"
      using that(2) by (simp add: retention_delay_def)
  qed
  show ?thesis using q1 gone kept by blast
qed


lemma toast_eval:
  "toastId (run_toasts events_before (toast_init 0)) = 1"
  "now (run_toasts events_before (toast_init 0)) = 3000"
  "now (run_toasts events_after (toast vote_recorded_toast (run_toasts events_before (toast_init 0)))) = 8000"
  "now (run_toasts [Advance 1000] (toast vote_recorded_toast (run_toasts events_before (toast_init 0)))) = 4000"
  by (simp_all add: events_before_def events_after_def toast_init_def toast_def advance_def
      retention_delay_def Let_def run_toasts_def)

theorem toast_removed_after_delay_witness:
  "queued (toastId (run_toasts events_before (toast_init 0)))
     (toast vote_recorded_toast (run_toasts events_before (toast_init 0))) \<and>
   now (run_toasts events_before (toast_init 0)) + 5000
     \<le> now (run_toasts events_after
              (toast vote_recorded_toast (run_toasts events_before (toast_init 0)))) \<and>
   \<not> queued (toastId (run_toasts events_before (toast_init 0)))
       (run_toasts events_after
          (toast vote_recorded_toast (run_toasts events_before (toast_init 0)))) \<and>
   Dismiss (toastId (run_toasts events_before (toast_init 0))) \<notin> set [Advance 1000] \<and>
   now (run_toasts [Advance 1000]
          (toast vote_recorded_toast (run_toasts events_before (toast_init 0))))
     < now (run_toasts events_before (toast_init 0)) + 5000 \<and>
   queued (toastId (run_toasts events_before (toast_init 0)))
     (run_toasts [Advance 1000]
        (toast vote_recorded_toast (run_toasts events_before (toast_init 0))))"
  using toast_removed_after_delay [of events_before 0 vote_recorded_toast events_after]
    toast_removed_after_delay [of events_before 0 vote_recorded_toast "[Advance 1000]"]
  by (simp add: toast_eval)


end
